theory Spec2Isabelle
  imports Complex_Main "HOL-Library.Multiset"
begin

section \<open>Data model of the link shortener (src/index.ts)\<close>

text \<open>
  A row of the \<open>links\<close> table, and at the same time the \<open>Link\<close> interface of the
  source: \<open>id\<close> is optional there, and the SELECT statements of the handlers leave
  it out. \<open>created_at\<close> is the timestamp the database fills in, as a number of seconds.
  \<open>clicks\<close> is the number the column holds: a 64-bit SQLite INTEGER, or beyond that
  range a REAL.
\<close>

record link =
  link_id :: "nat option"
  short_code :: string
  original_url :: string
  created_at :: nat
  clicks :: int

text \<open>
  The state the handlers share: the table (rows in insertion order) and the
  in-memory \<open>validTokens\<close> set.
\<close>

record server =
  links :: "link list"
  validTokens :: "string set"

text \<open>
  What the process gets from outside: the environment variables it reads, and the
  platform functions whose code is not part of the repository, taken as parameters:
  whether \<open>new URL(s)\<close> succeeds, SQLite's \<open>text LIKE pattern\<close>, and what becomes of
  a string that is set as the value of the \<open>Location\<close> header: \<open>Some v\<close> when the
  header is sent with the value \<open>v\<close> (the string without the white space around it),
  \<open>None\<close> when setting the header throws (a line break inside the value).
\<close>

record config =
  env_BASE_URL :: "string option"
  env_ADMIN_PASSWORD :: "string option"
  url_parses :: "string \<Rightarrow> bool"
  sql_like :: "string \<Rightarrow> string \<Rightarrow> bool"
  location_value :: "string \<Rightarrow> string option"

text \<open>Request bodies after \<open>c.req.json()\<close>; a field that is absent is \<open>None\<close>.\<close>

datatype shorten_request = ShortenRequest "string option"

datatype custom_slug_request = CustomSlugRequest "string option" "string option"

datatype auth_request = AuthRequest "string option"

record pagination =
  pg_page :: int
  pg_limit :: int
  pg_total :: int
  pg_totalPages :: int

record stats =
  totalLinks :: int
  totalClicks :: int

datatype json =
    MessageJson string
  | ErrorResponse string
  | ShortenResponse string string string
  | TokenJson string
  | LinkJson link
  | LinksJson "link list" pagination stats
  | LinksPageJson "link list" pagination

text \<open>
  The responses. \<open>Text\<close> is a plain-text body with its status: what the framework
  itself answers when a handler throws (\<open>internal_server_error\<close>) and when no route
  matches (\<open>not_found\<close>).
\<close>

datatype response =
    Json nat json
  | Redirect string nat
  | Html
  | Text string nat

fun status :: "response \<Rightarrow> nat" where
  "status (Json s b) = s"
| "status (Redirect target s) = s"
| "status Html = 200"
| "status (Text body s) = s"

definition internal_server_error :: response where
  "internal_server_error = Text ''Internal Server Error'' 500"

definition not_found :: response where
  "not_found = Text ''404 Not Found'' 404"

section \<open>JavaScript helpers\<close>

text \<open>\<open>a || d\<close> on an optional string: the empty string and \<open>undefined\<close> are falsy.\<close>

definition or_else :: "string option \<Rightarrow> string \<Rightarrow> string" where
  "or_else v d = (case v of None \<Rightarrow> d | Some s \<Rightarrow> if s = [] then d else s)"

definition falsy :: "string option \<Rightarrow> bool" where
  "falsy v = (case v of None \<Rightarrow> True | Some s \<Rightarrow> s = [])"

definition startsWith :: "string \<Rightarrow> string \<Rightarrow> bool" where
  "startsWith s p = (take (length p) s = p)"

definition charAt :: "string \<Rightarrow> nat \<Rightarrow> string" where
  "charAt s i = (if i < length s then [s ! i] else [])"

definition in_range :: "char \<Rightarrow> char \<Rightarrow> char \<Rightarrow> bool" where
  "in_range lo hi c = ((of_char lo :: nat) \<le> of_char c \<and> (of_char c :: nat) \<le> of_char hi)"

definition is_digit :: "char \<Rightarrow> bool" where
  "is_digit c = in_range CHR ''0'' CHR ''9'' c"

text \<open>
  White space that \<open>parseInt\<close> skips. Strings are lists of 8-bit characters here, so
  of the white space of ECMAScript only the code units below 256 appear.
\<close>

definition is_white_space :: "char \<Rightarrow> bool" where
  "is_white_space c =
     (c \<in> set [CHR 0x09, CHR 0x0A, CHR 0x0B, CHR 0x0C, CHR 0x0D, CHR 0x20, CHR 0xA0])"

definition digits_value :: "string \<Rightarrow> int" where
  "digits_value ds = foldl (\<lambda>a c. 10 * a + (int (of_char c) - 48)) 0 ds"

text \<open>
  JavaScript numbers are doubles. The numbers of this program are whole, so a number is
  modelled by the integer the double holds, and NaN by \<open>None\<close>. \<open>round_double n\<close> is
  the double nearest to the integer \<open>n\<close>: \<open>n\<close> itself while it fits the 53 bits of
  the mantissa, and otherwise \<open>n\<close> rounded to 53 significant bits, a tie going to the
  even mantissa. (From \<open>2^1024\<close> on the double is Infinity, which this program treats
  like every other number from \<open>2^63\<close> on.)
\<close>

function bit_length :: "int \<Rightarrow> nat" where
  "bit_length n = (if n \<le> 0 then 0 else Suc (bit_length (n div 2)))"
  by pat_completeness auto
termination
  by (relation "measure nat") auto

declare bit_length.simps [simp del]

definition round_double :: "int \<Rightarrow> int" where
  "round_double n =
     (let a = \<bar>n\<bar>;
          e = bit_length a - 53
      in if e = 0 then n
         else
           (let q = a div 2 ^ e;
                r = a mod 2 ^ e;
                h = 2 ^ (e - 1);
                q' = (if h < r \<or> (r = h \<and> odd q) then q + 1 else q)
            in sgn n * (q' * 2 ^ e)))"

definition js_sub :: "int \<Rightarrow> int \<Rightarrow> int" where
  "js_sub a b = round_double (a - b)"

definition js_mul :: "int \<Rightarrow> int \<Rightarrow> int" where
  "js_mul a b = round_double (a * b)"

text \<open>
  \<open>parseInt(input, 10)\<close> as ECMAScript defines it: skip leading white space, read an
  optional sign, take the longest prefix of decimal digits; no digit gives NaN
  (\<open>None\<close>); otherwise the result is the double for the value of the digits. (Past 20
  significant digits an implementation may round the digits first; such a value is
  above \<open>2^63\<close> either way.)
\<close>

definition parseInt :: "string \<Rightarrow> int option" where
  "parseInt input =
     (let s = dropWhile is_white_space input;
          sign = (if s \<noteq> [] \<and> hd s = CHR ''-'' then - 1 else 1 :: int);
          s' = (if s \<noteq> [] \<and> (hd s = CHR ''+'' \<or> hd s = CHR ''-'') then tl s else s);
          z = takeWhile is_digit s'
      in if z = [] then None else Some (sign * round_double (digits_value z)))"

section \<open>Code and token generation\<close>

definition chars :: string where
  "chars = ''abcdefghijklmnopqrstuvwxyzABCDEFGHIJKLMNOPQRSTUVWXYZ0123456789''"

text \<open>
  The random source of a request is the sequence \<open>rnd\<close> of its future draws;
  \<open>Math.floor(Math.random() * n)\<close> at draw \<open>i\<close> is \<open>rnd i mod n\<close>.
\<close>

definition random_index :: "(nat \<Rightarrow> nat) \<Rightarrow> nat \<Rightarrow> nat \<Rightarrow> nat" where
  "random_index rnd i n = rnd i mod n"

text \<open>
  The loop \<open>for (let i = 0; i < length; i++) result += chars.charAt(...)\<close>, shared by
  \<open>generateShortCode\<close> and \<open>generateToken\<close>; \<open>pos\<close> is the next draw.
\<close>

fun append_random_chars :: "(nat \<Rightarrow> nat) \<Rightarrow> nat \<Rightarrow> nat \<Rightarrow> string \<Rightarrow> string" where
  "append_random_chars rnd pos 0 result = result"
| "append_random_chars rnd pos (Suc k) result =
     append_random_chars rnd (Suc pos) k
       (result @ charAt chars (random_index rnd pos (length chars)))"

definition generateShortCode :: "(nat \<Rightarrow> nat) \<Rightarrow> nat \<Rightarrow> nat \<Rightarrow> string" where
  "generateShortCode rnd pos len = append_random_chars rnd pos len []"

definition generateToken :: "(nat \<Rightarrow> nat) \<Rightarrow> string" where
  "generateToken rnd = append_random_chars rnd 0 32 []"

section \<open>Validators\<close>

definition isValidUrl :: "config \<Rightarrow> string \<Rightarrow> bool" where
  "isValidUrl cfg s = url_parses cfg s"

definition ADMIN_PASSWORD :: "config \<Rightarrow> string" where
  "ADMIN_PASSWORD cfg = or_else (env_ADMIN_PASSWORD cfg) ''doppy''"

definition baseUrl :: "config \<Rightarrow> string" where
  "baseUrl cfg = or_else (env_BASE_URL cfg) ''http://localhost:3000''"

definition validateToken :: "server \<Rightarrow> string option \<Rightarrow> bool" where
  "validateToken st authHeader =
     (case authHeader of
        None \<Rightarrow> False
      | Some h \<Rightarrow>
          if h = [] \<or> \<not> startsWith h ''Bearer '' then False
          else drop 7 h \<in> validTokens st)"

text \<open>The character class \<open>[a-zA-Z0-9_-]\<close> of the slug pattern.\<close>

definition slug_class :: "char \<Rightarrow> bool" where
  "slug_class c =
     (in_range CHR ''a'' CHR ''z'' c \<or> in_range CHR ''A'' CHR ''Z'' c \<or>
      in_range CHR ''0'' CHR ''9'' c \<or> c = CHR ''_'' \<or> c = CHR ''-'')"

text \<open>
  \<open>/^[cls]+$/.test(s)\<close>: one or more characters of the class, then the end of the
  input (without the \<open>m\<close> flag \<open>$\<close> matches at the end only).
\<close>

fun test_class_plus :: "(char \<Rightarrow> bool) \<Rightarrow> string \<Rightarrow> bool" where
  "test_class_plus cls [] = False"
| "test_class_plus cls [c] = cls c"
| "test_class_plus cls (c # d # cs) = (cls c \<and> test_class_plus cls (d # cs))"

definition isValidSlug :: "string \<Rightarrow> bool" where
  "isValidSlug slug =
     (test_class_plus slug_class slug \<and> length slug \<ge> 1 \<and> length slug \<le> 50)"

section \<open>The link store\<close>

text \<open>\<open>SELECT ... FROM links WHERE short_code = ?\<close> with \<open>.get\<close>: the first such row.\<close>

definition find_link :: "string \<Rightarrow> link list \<Rightarrow> link option" where
  "find_link code ls = find (\<lambda>l. short_code l = code) ls"

definition code_exists :: "string \<Rightarrow> link list \<Rightarrow> bool" where
  "code_exists code ls = (find_link code ls \<noteq> None)"

primrec max_id :: "link list \<Rightarrow> nat" where
  "max_id [] = 0"
| "max_id (l # ls) = max (case link_id l of None \<Rightarrow> 0 | Some i \<Rightarrow> i) (max_id ls)"

text \<open>
  \<open>INSERT INTO links (short_code, original_url) VALUES (?, ?)\<close>: the UNIQUE constraint
  makes the statement throw (\<open>None\<close>) when the code is taken; otherwise the row gets the
  next id, the current time and \<open>clicks = 0\<close>.
\<close>

definition db_insert :: "string \<Rightarrow> string \<Rightarrow> nat \<Rightarrow> link list \<Rightarrow> link list option" where
  "db_insert code url now ls =
     (if code_exists code ls then None
      else Some (ls @ [\<lparr>link_id = Some (Suc (max_id ls)), short_code = code,
                        original_url = url, created_at = now, clicks = 0\<rparr>]))"

text \<open>
  \<open>clicks + 1\<close> in SQLite: integer addition on a 64-bit INTEGER; at the largest
  INTEGER the sum becomes the REAL \<open>2^63\<close>, and adding 1 to a REAL of that size gives
  the same REAL.
\<close>

definition sql_add_one :: "int \<Rightarrow> int" where
  "sql_add_one n = (if - (2 ^ 63) \<le> n \<and> n < 2 ^ 63 then n + 1 else n)"

text \<open>\<open>UPDATE links SET clicks = clicks + 1 WHERE short_code = ?\<close>\<close>

definition increment_clicks :: "string \<Rightarrow> link list \<Rightarrow> link list" where
  "increment_clicks code ls =
     map (\<lambda>l. if short_code l = code then l\<lparr>clicks := sql_add_one (clicks l)\<rparr> else l) ls"

text \<open>\<open>SELECT short_code, original_url, created_at, clicks\<close>: the row without its id.\<close>

definition select_columns :: "link \<Rightarrow> link" where
  "select_columns l = l\<lparr>link_id := None\<rparr>"

text \<open>
  \<open>ORDER BY created_at DESC\<close>, as an insertion sort; rows of the same second stay in
  insertion order.
\<close>

fun insert_desc :: "link \<Rightarrow> link list \<Rightarrow> link list" where
  "insert_desc l [] = [l]"
| "insert_desc l (r # rs) =
     (if created_at r \<le> created_at l then l # r # rs else r # insert_desc l rs)"

definition order_by_created_at_desc :: "link list \<Rightarrow> link list" where
  "order_by_created_at_desc ls = foldr insert_desc ls []"

text \<open>\<open>WHERE short_code LIKE ? OR original_url LIKE ?\<close>\<close>

definition search_links :: "config \<Rightarrow> string \<Rightarrow> link list \<Rightarrow> link list" where
  "search_links cfg searchPattern ls =
     filter (\<lambda>l. sql_like cfg (short_code l) searchPattern \<or>
                 sql_like cfg (original_url l) searchPattern) ls"

section \<open>Request handlers\<close>

definition get_root :: "server \<Rightarrow> response \<times> server" where
  "get_root st = (Json 200 (MessageJson ''Link Shortener API is running!''), st)"

definition maxAttempts :: nat where
  "maxAttempts = 10"

text \<open>
  The \<open>do ... while\<close> loop of \<open>/shorten\<close>. It returns the last candidate and the
  number of attempts made.
\<close>

function unique_code_loop ::
  "(nat \<Rightarrow> nat) \<Rightarrow> link list \<Rightarrow> nat \<Rightarrow> nat \<Rightarrow> string \<times> nat" where
  "unique_code_loop rnd ls pos attempts =
     (if code_exists (generateShortCode rnd pos 6) ls \<and> attempts + 1 < maxAttempts
      then unique_code_loop rnd ls (pos + 6) (attempts + 1)
      else (generateShortCode rnd pos 6, attempts + 1))"
  by pat_completeness auto
termination
  by (relation "measure (\<lambda>(rnd, ls, pos, attempts). maxAttempts - attempts)") auto

declare unique_code_loop.simps [simp del]

definition post_shorten ::
  "config \<Rightarrow> (nat \<Rightarrow> nat) \<Rightarrow> nat \<Rightarrow> shorten_request option \<Rightarrow> server \<Rightarrow> response \<times> server" where
  "post_shorten cfg rnd now body st =
     (case body of
        None \<Rightarrow> (Json 400 (ErrorResponse ''Invalid JSON or server error''), st)
      | Some (ShortenRequest url) \<Rightarrow>
          if falsy url then (Json 400 (ErrorResponse ''URL is required''), st)
          else if \<not> isValidUrl cfg (the url) then
            (Json 400 (ErrorResponse ''Invalid URL format''), st)
          else
            (case unique_code_loop rnd (links st) 0 0 of
               (shortCode, attempts) \<Rightarrow>
                 if attempts \<ge> maxAttempts then
                   (Json 500 (ErrorResponse ''Failed to generate unique short code''), st)
                 else
                   (case db_insert shortCode (the url) now (links st) of
                      None \<Rightarrow> (Json 400 (ErrorResponse ''Invalid JSON or server error''), st)
                    | Some ls' \<Rightarrow>
                        (Json 200 (ShortenResponse shortCode
                                     (baseUrl cfg @ ''/'' @ shortCode) (the url)),
                         st\<lparr>links := ls'\<rparr>))))"

text \<open>\<open>GET /admin\<close> serves the file \<open>admin.html\<close>, which is taken to exist.\<close>

definition get_admin :: "server \<Rightarrow> response \<times> server" where
  "get_admin st = (Html, st)"

definition post_admin_auth ::
  "config \<Rightarrow> (nat \<Rightarrow> nat) \<Rightarrow> auth_request option \<Rightarrow> server \<Rightarrow> response \<times> server" where
  "post_admin_auth cfg rnd body st =
     (case body of
        None \<Rightarrow> (Json 400 (ErrorResponse ''Invalid request''), st)
      | Some (AuthRequest password) \<Rightarrow>
          if password = Some (ADMIN_PASSWORD cfg) then
            (let token = generateToken rnd
             in (Json 200 (TokenJson token),
                 st\<lparr>validTokens := insert token (validTokens st)\<rparr>))
          else (Json 401 (ErrorResponse ''Invalid password''), st))"

definition post_admin_create ::
  "config \<Rightarrow> nat \<Rightarrow> string option \<Rightarrow> custom_slug_request option \<Rightarrow> server
     \<Rightarrow> response \<times> server" where
  "post_admin_create cfg now authHeader body st =
     (if \<not> validateToken st authHeader then (Json 401 (ErrorResponse ''Unauthorized''), st)
      else
        (case body of
           None \<Rightarrow> (Json 400 (ErrorResponse ''Invalid JSON or server error''), st)
         | Some (CustomSlugRequest url slug) \<Rightarrow>
             if falsy url then (Json 400 (ErrorResponse ''URL is required''), st)
             else if \<not> isValidUrl cfg (the url) then
               (Json 400 (ErrorResponse ''Invalid URL format''), st)
             else if falsy slug then (Json 400 (ErrorResponse ''Slug is required''), st)
             else if \<not> isValidSlug (the slug) then
               (Json 400 (ErrorResponse
                  ''Invalid slug format. Use only letters, numbers, hyphens, and underscores (1-50 chars)''),
                st)
             else if code_exists (the slug) (links st) then
               (Json 409 (ErrorResponse ''This slug is already taken''), st)
             else
               (case db_insert (the slug) (the url) now (links st) of
                  None \<Rightarrow> (Json 400 (ErrorResponse ''Invalid JSON or server error''), st)
                | Some ls' \<Rightarrow>
                    (Json 200 (ShortenResponse (the slug)
                                 (baseUrl cfg @ ''/'' @ the slug) (the url)),
                     st\<lparr>links := ls'\<rparr>))))"

text \<open>
  \<open>c.redirect(location, 302)\<close> sets the \<open>Location\<close> header. When that throws, the
  handler has no \<open>try\<close> around it and the framework answers 500.
\<close>

definition redirect :: "config \<Rightarrow> string \<Rightarrow> response" where
  "redirect cfg location =
     (case location_value cfg location of
        None \<Rightarrow> internal_server_error
      | Some v \<Rightarrow> Redirect v 302)"

text \<open>The handler of \<open>/:code\<close>. The click is counted before the redirect is built.\<close>

definition get_code :: "config \<Rightarrow> string \<Rightarrow> server \<Rightarrow> response \<times> server" where
  "get_code cfg code st =
     (if code = [] then (Json 400 (ErrorResponse ''Short code is required''), st)
      else
        (case find_link code (links st) of
           None \<Rightarrow> (Json 404 (ErrorResponse ''Short link not found''), st)
         | Some l \<Rightarrow>
             (redirect cfg (original_url l),
              st\<lparr>links := increment_clicks code (links st)\<rparr>)))"

definition get_stats :: "string \<Rightarrow> server \<Rightarrow> response \<times> server" where
  "get_stats code st =
     (if code = [] then (Json 400 (ErrorResponse ''Short code is required''), st)
      else
        (case find_link code (links st) of
           None \<Rightarrow> (Json 404 (ErrorResponse ''Short link not found''), st)
         | Some l \<Rightarrow> (Json 200 (LinkJson (select_columns l)), st)))"

text \<open>\<open>Math.ceil(count / limit)\<close>\<close>

definition math_ceil_div :: "int \<Rightarrow> int \<Rightarrow> int" where
  "math_ceil_div n d = \<lceil>real_of_int n / real_of_int d\<rceil>"

text \<open>\<open>LIMIT ? OFFSET ?\<close> on the ordered rows, for a limit and an offset that are not negative.\<close>

definition limit_offset :: "int \<Rightarrow> int \<Rightarrow> link list \<Rightarrow> link list" where
  "limit_offset limit offset ls = take (nat limit) (drop (nat offset) ls)"

text \<open>
  The rows the two queries of \<open>/admin/links\<close> range over: all rows, or with a
  non-empty \<open>search\<close> those whose code or URL is \<open>LIKE %search%\<close>.
\<close>

definition matching_links :: "config \<Rightarrow> string \<Rightarrow> link list \<Rightarrow> link list" where
  "matching_links cfg search ls =
     (if search \<noteq> [] then search_links cfg (''%'' @ search @ ''%'') ls else ls)"

text \<open>
  The body of the 200 response of \<open>/admin/links\<close>, once \<open>page\<close> and \<open>limit\<close> have
  passed the check and the queries have run.
\<close>

text \<open>\<open>(page - 1) * limit\<close>, in doubles.\<close>

definition page_offset :: "int \<Rightarrow> int \<Rightarrow> int" where
  "page_offset page limit = js_mul (js_sub page 1) limit"

text \<open>
  A number bound to \<open>LIMIT ?\<close> or \<open>OFFSET ?\<close> must be a 64-bit integer for SQLite;
  for any other number the query throws.
\<close>

definition sql_integer :: "int \<Rightarrow> bool" where
  "sql_integer x = (- (2 ^ 63) < x \<and> x < 2 ^ 63)"

definition links_json :: "config \<Rightarrow> int \<Rightarrow> int \<Rightarrow> string \<Rightarrow> link list \<Rightarrow> json" where
  "links_json cfg page limit search ls =
     (let offset = page_offset page limit;
          matching = matching_links cfg search ls;
          total = int (length matching);
          rows = map select_columns
                   (limit_offset limit offset (order_by_created_at_desc matching));
          totalClicks = sum_list (map clicks ls)
      in LinksJson rows
           \<lparr>pg_page = page, pg_limit = limit, pg_total = total,
            pg_totalPages = math_ceil_div total limit\<rparr>
           \<lparr>totalLinks = total, totalClicks = totalClicks\<rparr>)"

text \<open>
  The handler of \<open>/admin/links\<close>. It has no \<open>try\<close>: when \<open>.all(limit, offset)\<close> throws,
  the framework answers 500.
\<close>

definition get_admin_links ::
  "config \<Rightarrow> string option \<Rightarrow> string option \<Rightarrow> string option \<Rightarrow> string option \<Rightarrow> server
     \<Rightarrow> response \<times> server" where
  "get_admin_links cfg authHeader page_q limit_q search_q st =
     (if \<not> validateToken st authHeader then (Json 401 (ErrorResponse ''Unauthorized''), st)
      else
        (case (parseInt (or_else page_q ''1''), parseInt (or_else limit_q ''50'')) of
           (Some page, Some limit) \<Rightarrow>
             if page < 1 \<or> limit < 1 then
               (Json 400 (ErrorResponse ''Invalid pagination parameters''), st)
             else if \<not> sql_integer limit \<or> \<not> sql_integer (page_offset page limit) then
               (internal_server_error, st)
             else (Json 200 (links_json cfg page limit (or_else search_q []) (links st)), st)
         | _ \<Rightarrow> (Json 400 (ErrorResponse ''Invalid pagination parameters''), st)))"

text \<open>
  The earlier revision of the server (src/unnamed/part_000) has the same handlers for
  \<open>/shorten\<close>, \<open>/:code\<close> and \<open>/stats/:code\<close>. Its \<open>/admin/links\<close> asks for no token,
  has no search, takes 20 as the default limit and returns no stats.
\<close>

definition get_admin_links_v0 ::
  "string option \<Rightarrow> string option \<Rightarrow> server \<Rightarrow> response \<times> server" where
  "get_admin_links_v0 page_q limit_q st =
     (case (parseInt (or_else page_q ''1''), parseInt (or_else limit_q ''20'')) of
        (Some page, Some limit) \<Rightarrow>
          if page < 1 \<or> limit < 1 then
            (Json 400 (ErrorResponse ''Invalid pagination parameters''), st)
          else if \<not> sql_integer limit \<or> \<not> sql_integer (page_offset page limit) then
            (internal_server_error, st)
          else
            (let offset = page_offset page limit;
                 total = int (length (links st));
                 rows = map select_columns
                          (limit_offset limit offset (order_by_created_at_desc (links st)))
             in (Json 200
                   (LinksPageJson rows
                      \<lparr>pg_page = page, pg_limit = limit, pg_total = total,
                       pg_totalPages = math_ceil_div total limit\<rparr>),
                 st))
      | _ \<Rightarrow> (Json 400 (ErrorResponse ''Invalid pagination parameters''), st))"

section \<open>The service as a transition system\<close>

text \<open>
  The requests. \<open>GetCode seg\<close> is a GET of a path of one segment, \<open>/seg\<close>, and
  \<open>GetStats seg\<close> a GET of \<open>/stats/seg\<close>. The routes are tried in the order the source
  registers them: \<open>/\<close> and \<open>/admin\<close> come before \<open>/:code\<close>, and a parameter of a
  route never matches an empty segment.
\<close>

datatype request =
    GetRoot
  | PostShorten "shorten_request option"
  | GetAdmin
  | PostAdminAuth "auth_request option"
  | PostAdminCreate "string option" "custom_slug_request option"
  | GetCode string
  | GetStats string
  | GetAdminLinks "string option" "string option" "string option" "string option"

text \<open>Which handler a GET of the one-segment path \<open>/seg\<close> reaches.\<close>

datatype segment_route = RootRoute | AdminRoute | CodeRoute

definition route_segment :: "string \<Rightarrow> segment_route" where
  "route_segment seg =
     (if seg = [] then RootRoute else if seg = ''admin'' then AdminRoute else CodeRoute)"

text \<open>What a request draws from outside: its random numbers and the time of day.\<close>

record ambient =
  amb_rnd :: "nat \<Rightarrow> nat"
  amb_now :: nat

fun handle :: "config \<Rightarrow> request \<Rightarrow> ambient \<Rightarrow> server \<Rightarrow> response \<times> server" where
  "handle cfg GetRoot amb st = get_root st"
| "handle cfg (PostShorten body) amb st = post_shorten cfg (amb_rnd amb) (amb_now amb) body st"
| "handle cfg GetAdmin amb st = get_admin st"
| "handle cfg (PostAdminAuth body) amb st = post_admin_auth cfg (amb_rnd amb) body st"
| "handle cfg (PostAdminCreate authHeader body) amb st =
     post_admin_create cfg (amb_now amb) authHeader body st"
| "handle cfg (GetCode seg) amb st =
     (case route_segment seg of
        RootRoute \<Rightarrow> get_root st
      | AdminRoute \<Rightarrow> get_admin st
      | CodeRoute \<Rightarrow> get_code cfg seg st)"
| "handle cfg (GetStats seg) amb st =
     (if seg = [] then (not_found, st) else get_stats seg st)"
| "handle cfg (GetAdminLinks authHeader page_q limit_q search_q) amb st =
     get_admin_links cfg authHeader page_q limit_q search_q st"

text \<open>A run of the process: the requests it serves in order, with their responses.\<close>

fun run :: "config \<Rightarrow> (request \<times> ambient) list \<Rightarrow> server \<Rightarrow> response list \<times> server" where
  "run cfg [] st = ([], st)"
| "run cfg ((r, amb) # evs) st =
     (case handle cfg r amb st of
        (resp, st') \<Rightarrow> (case run cfg evs st' of (rs, st'') \<Rightarrow> (resp # rs, st'')))"

text \<open>The process starts on the database file it finds, with no token issued.\<close>

definition boot :: "link list \<Rightarrow> server" where
  "boot db = \<lparr>links = db, validTokens = {}\<rparr>"

section \<open>Invariants and observations used in the statements\<close>

text \<open>
  What every store the service has written satisfies: the codes are pairwise different
  (the UNIQUE constraint) and each is a well-formed slug (a generated code or a
  validated custom slug).
\<close>

definition store_ok :: "link list \<Rightarrow> bool" where
  "store_ok ls =
     (distinct (map short_code ls) \<and> list_all isValidSlug (map short_code ls))"

text \<open>The characters the specification allows in a slug: letters, digits, hyphen, underscore.\<close>

definition slug_alphabet :: string where
  "slug_alphabet = ''abcdefghijklmnopqrstuvwxyzABCDEFGHIJKLMNOPQRSTUVWXYZ0123456789-_''"



text \<open>
  A row after an operation: every column but \<open>clicks\<close> is as before, and \<open>clicks\<close> is
  as before or one more. \<open>store_extends\<close>: every old row is kept, at its place.
\<close>

definition row_kept :: "link \<Rightarrow> link \<Rightarrow> bool" where
  "row_kept l l' =
     (link_id l' = link_id l \<and> short_code l' = short_code l \<and>
      original_url l' = original_url l \<and> created_at l' = created_at l \<and>
      clicks l \<le> clicks l' \<and> clicks l' \<le> clicks l + 1)"

definition store_extends :: "link list \<Rightarrow> link list \<Rightarrow> bool" where
  "store_extends ls ls' =
     (length ls \<le> length ls' \<and> list_all2 row_kept ls (take (length ls) ls'))"

fun is_redirect :: "request \<Rightarrow> bool" where
  "is_redirect (GetCode code) = True"
| "is_redirect r = False"

text \<open>The tokens that the responses of a run have handed out.\<close>

fun tokens_of :: "response \<Rightarrow> string list" where
  "tokens_of (Json s (TokenJson t)) = [t]"
| "tokens_of r = []"

definition issued_tokens :: "response list \<Rightarrow> string set" where
  "issued_tokens rs = set (concat (map tokens_of rs))"

text \<open>How many requests of a run are redirects of the code \<open>c\<close>.\<close>

definition redirects_of :: "string \<Rightarrow> (request \<times> ambient) list \<Rightarrow> nat" where
  "redirects_of c evs = length (filter (\<lambda>e. fst e = GetCode c) evs)"

section \<open>Concrete inputs\<close>

text \<open>
  In \<open>demo_config\<close> the platform functions are stand-ins: URLs that start with
  \<open>https://\<close> parse, \<open>LIKE\<close> matches nothing, and a \<open>Location\<close> value loses the
  tabs, spaces and line breaks around it and is refused when a line break or a NUL is
  left. The other constants are stores, states, random sources and runs on which the
  theorems are evaluated.
\<close>

definition http_white_space :: "char \<Rightarrow> bool" where
  "http_white_space c = (c \<in> set [CHR 0x09, CHR 0x0A, CHR 0x0D, CHR 0x20])"

definition demo_location_value :: "string \<Rightarrow> string option" where
  "demo_location_value s =
     (let v = rev (dropWhile http_white_space (rev (dropWhile http_white_space s)))
      in if list_ex (\<lambda>c. c \<in> set [CHR 0x00, CHR 0x0A, CHR 0x0D]) v then None else Some v)"

definition demo_config :: config where
  "demo_config =
     \<lparr>env_BASE_URL = None, env_ADMIN_PASSWORD = None,
      url_parses = (\<lambda>s. startsWith s ''https://''),
      sql_like = (\<lambda>text pattern. False),
      location_value = demo_location_value\<rparr>"

definition one_link_store :: "link list" where
  "one_link_store =
     [\<lparr>link_id = Some 1, short_code = ''aaaaaa'', original_url = ''https://example.com'',
       created_at = 0, clicks = 0\<rparr>]"

definition tenth_differs :: "nat \<Rightarrow> nat" where
  "tenth_differs i = (if i < 54 then 0 else 1)"

definition admin_state :: server where
  "admin_state = \<lparr>links = one_link_store, validTokens = {''k3J9xQ2mZ7aB4cD8eF1gH5iL0nP6rS2t''}\<rparr>"

definition admin_header :: "string option" where
  "admin_header = Some ''Bearer k3J9xQ2mZ7aB4cD8eF1gH5iL0nP6rS2t''"

definition listing_state :: server where
  "listing_state =
     \<lparr>links =
        [\<lparr>link_id = Some 1, short_code = ''aaaaaa'', original_url = ''https://example.com'',
          created_at = 10, clicks = 4\<rparr>,
         \<lparr>link_id = Some 2, short_code = ''promo'', original_url = ''https://example.org/sale'',
          created_at = 30, clicks = 0\<rparr>,
         \<lparr>link_id = Some 3, short_code = ''bbbbbb'', original_url = ''https://example.net'',
          created_at = 20, clicks = 1\<rparr>],
      validTokens = {''k3J9xQ2mZ7aB4cD8eF1gH5iL0nP6rS2t''}\<rparr>"

definition zero_rnd :: "nat \<Rightarrow> nat" where
  "zero_rnd i = 0"

definition login_run :: "(request \<times> ambient) list" where
  "login_run =
     [(PostAdminAuth (Some (AuthRequest (Some ''doppy''))), \<lparr>amb_rnd = zero_rnd, amb_now = 5\<rparr>)]"

definition admin_slug_run :: "(request \<times> ambient) list" where
  "admin_slug_run =
     login_run @
     [(PostAdminCreate (Some ''Bearer aaaaaaaaaaaaaaaaaaaaaaaaaaaaaaaa'')
         (Some (CustomSlugRequest (Some ''https://example.org/panel'') (Some ''admin''))),
       \<lparr>amb_rnd = zero_rnd, amb_now = 6\<rparr>)]"

definition line_break_url :: string where
  "line_break_url = ''https://example.org/a'' @ [CHR 0x0A] @ ''b''"

definition line_break_run :: "(request \<times> ambient) list" where
  "line_break_run =
     [(PostShorten (Some (ShortenRequest (Some line_break_url))),
       \<lparr>amb_rnd = zero_rnd, amb_now = 8\<rparr>)]"

definition full_counter_state :: server where
  "full_counter_state =
     \<lparr>links =
        [\<lparr>link_id = Some 1, short_code = ''aaaaaa'', original_url = ''https://example.com'',
          created_at = 0, clicks = 2 ^ 63\<rparr>],
      validTokens = {}\<rparr>"

definition three_redirects :: "(request \<times> ambient) list" where
  "three_redirects =
     [(GetCode ''promo'', \<lparr>amb_rnd = zero_rnd, amb_now = 41\<rparr>),
      (GetStats ''promo'', \<lparr>amb_rnd = zero_rnd, amb_now = 42\<rparr>),
      (GetCode ''promo'', \<lparr>amb_rnd = zero_rnd, amb_now = 43\<rparr>),
      (GetCode ''aaaaaa'', \<lparr>amb_rnd = zero_rnd, amb_now = 44\<rparr>),
      (GetCode ''promo'', \<lparr>amb_rnd = zero_rnd, amb_now = 45\<rparr>)]"

definition promo_link :: link where
  "promo_link =
     \<lparr>link_id = Some 2, short_code = ''promo'', original_url = ''https://example.org/sale'',
      created_at = 30, clicks = 0\<rparr>"

section \<open>Basic facts about the model\<close>

lemma find_link_Some: "find_link c ls = Some l \<Longrightarrow> l \<in> set ls \<and> short_code l = c"
  by (auto simp: find_link_def find_Some_iff)

lemma find_link_None_iff: "find_link c ls = None \<longleftrightarrow> c \<notin> short_code ` set ls"
  by (auto simp: find_link_def find_None_iff)

lemma code_exists_iff: "code_exists c ls \<longleftrightarrow> c \<in> short_code ` set ls"
  by (simp add: code_exists_def find_link_None_iff)

lemma find_link_append:
  "find_link c (ls @ rs) = (case find_link c ls of None \<Rightarrow> find_link c rs | Some l \<Rightarrow> Some l)"
  by (induction ls) (auto simp: find_link_def)

lemma length_increment_clicks [simp]: "length (increment_clicks c ls) = length ls"
  by (simp add: increment_clicks_def)

lemma codes_increment_clicks [simp]:
  "map short_code (increment_clicks c ls) = map short_code ls"
  by (induction ls) (auto simp: increment_clicks_def)

lemma find_link_increment_clicks:
  "find_link c' (increment_clicks c ls) =
     map_option (\<lambda>l. if c' = c then l\<lparr>clicks := sql_add_one (clicks l)\<rparr> else l)
       (find_link c' ls)"
  by (induction ls) (auto simp: find_link_def increment_clicks_def)

lemma test_class_plus_iff: "test_class_plus cls s \<longleftrightarrow> s \<noteq> [] \<and> list_all cls s"
  by (induction cls s rule: test_class_plus.induct) auto

lemma isValidSlug_iff:
  "isValidSlug s \<longleftrightarrow> s \<noteq> [] \<and> list_all slug_class s \<and> length s \<le> 50"
  by (cases s) (auto simp: isValidSlug_def test_class_plus_iff)

lemma chars_slug_class: "list_all slug_class chars"
  by (simp add: chars_def slug_class_def in_range_def)

lemma length_chars: "length chars = 62"
  by (simp add: chars_def)

lemma charAt_random_index:
  "\<exists>c. charAt chars (random_index rnd i (length chars)) = [c] \<and> slug_class c"
proof -
  have lt: "random_index rnd i (length chars) < length chars"
    by (simp add: random_index_def length_chars)
  then have "chars ! random_index rnd i (length chars) \<in> set chars"
    by (rule nth_mem)
  then have "slug_class (chars ! random_index rnd i (length chars))"
    using chars_slug_class by (simp add: list_all_iff)
  then show ?thesis using lt by (simp add: charAt_def)
qed

lemma append_random_chars_props:
  "length (append_random_chars rnd pos k res) = length res + k \<and>
   (list_all slug_class res \<longrightarrow> list_all slug_class (append_random_chars rnd pos k res))"
proof (induction k arbitrary: pos res)
  case 0
  then show ?case by simp
next
  case (Suc k)
  obtain c where c: "charAt chars (random_index rnd pos (length chars)) = [c]" "slug_class c"
    using charAt_random_index by blast
  show ?case
    using Suc.IH [of "Suc pos" "res @ [c]"] c by simp
qed

lemma generateShortCode_slug: "isValidSlug (generateShortCode rnd pos 6)"
  using append_random_chars_props [of rnd pos 6 "[]"]
  by (auto simp: generateShortCode_def isValidSlug_iff)

lemma length_generateToken: "length (generateToken rnd) = 32"
  using append_random_chars_props [of rnd 0 32 "[]"] by (simp add: generateToken_def)

lemma generateToken_class: "list_all slug_class (generateToken rnd)"
  using append_random_chars_props [of rnd 0 32 "[]"] by (simp add: generateToken_def)

lemma unique_code_loop_result:
  "unique_code_loop rnd ls pos a = (code, n) \<Longrightarrow>
     isValidSlug code \<and> (n < maxAttempts \<longrightarrow> \<not> code_exists code ls)"
proof (induction rnd ls pos a rule: unique_code_loop.induct)
  case (1 rnd ls pos attempts)
  show ?case
  proof (cases "code_exists (generateShortCode rnd pos 6) ls \<and> attempts + 1 < maxAttempts")
    case True
    then show ?thesis
      using "1.IH" "1.prems" by (simp add: unique_code_loop.simps [of rnd ls pos attempts])
  next
    case False
    then show ?thesis
      using "1.prems" generateShortCode_slug [of rnd pos]
      by (auto simp: unique_code_loop.simps [of rnd ls pos attempts])
  qed
qed

lemma store_ok_insert:
  "store_ok ls \<Longrightarrow> isValidSlug c \<Longrightarrow> db_insert c u t ls = Some ls' \<Longrightarrow> store_ok ls'"
  by (auto simp: store_ok_def db_insert_def code_exists_iff split: if_splits)

lemma set_codes_increment_clicks:
  "l \<in> set (increment_clicks c ls) \<Longrightarrow> short_code l \<in> short_code ` set ls"
  by (auto simp: increment_clicks_def)

lemma store_ok_increment: "store_ok ls \<Longrightarrow> store_ok (increment_clicks c ls)"
  by (simp add: store_ok_def)

lemma startsWith_Bearer: "startsWith s ''Bearer '' \<longleftrightarrow> take 7 s = ''Bearer ''"
proof -
  have len: "length ''Bearer '' = 7" by simp
  show ?thesis unfolding startsWith_def len ..
qed

lemma validateToken_iff:
  "validateToken st h \<longleftrightarrow> (\<exists>t \<in> validTokens st. h = Some (''Bearer '' @ t))"
proof (cases h)
  case None
  then show ?thesis by (simp add: validateToken_def)
next
  case (Some s)
  show ?thesis
  proof
    assume v: "validateToken st h"
    then have p: "take 7 s = ''Bearer ''" and m: "drop 7 s \<in> validTokens st"
      using Some by (simp_all add: validateToken_def startsWith_Bearer split: if_splits)
    have "s = ''Bearer '' @ drop 7 s"
      using p append_take_drop_id [of 7 s] by simp
    then show "\<exists>t \<in> validTokens st. h = Some (''Bearer '' @ t)"
      using m Some by blast
  next
    assume "\<exists>t \<in> validTokens st. h = Some (''Bearer '' @ t)"
    then obtain t where t: "t \<in> validTokens st" and s: "s = ''Bearer '' @ t"
      using Some by auto
    have "take 7 s = ''Bearer ''" "drop 7 s = t" by (simp_all add: s)
    then show "validateToken st h"
      using t Some by (simp add: validateToken_def startsWith_Bearer s)
  qed
qed

lemma validateToken_no_prefix:
  "authHeader = None \<or> (\<exists>h. authHeader = Some h \<and> \<not> startsWith h ''Bearer '') \<Longrightarrow>
     \<not> validateToken st authHeader"
  by (auto simp: validateToken_def)

lemma generateToken_no_prefix: "\<not> startsWith (generateToken rnd) ''Bearer ''"
proof
  assume "startsWith (generateToken rnd) ''Bearer ''"
  then have t: "take 7 (generateToken rnd) = ''Bearer ''"
    by (simp add: startsWith_Bearer)
  have "generateToken rnd ! 6 = take 7 (generateToken rnd) ! 6"
    by simp
  then have sp: "generateToken rnd ! 6 = CHR '' ''"
    by (simp add: t)
  have "generateToken rnd ! 6 \<in> set (generateToken rnd)"
    by (rule nth_mem) (simp add: length_generateToken)
  then have "slug_class (generateToken rnd ! 6)"
    using generateToken_class [of rnd] by (simp add: list_all_iff)
  then show False
    by (simp add: sp slug_class_def in_range_def)
qed

lemma in_range_image: "in_range lo hi c \<Longrightarrow> c \<in> set (map char_of [of_char lo ..< Suc (of_char hi) :: nat])"
proof -
  assume "in_range lo hi c"
  then have "(of_char lo :: nat) \<le> of_char c \<and> (of_char c :: nat) < Suc (of_char hi)"
    unfolding in_range_def by (blast intro: le_imp_less_Suc)
  then have "(of_char c :: nat) \<in> set [of_char lo ..< Suc (of_char hi)]"
    by (simp only: set_upt atLeastLessThan_iff)
  then have "char_of (of_char c :: nat) \<in> char_of ` set [of_char lo ..< Suc (of_char hi) :: nat]"
    by (rule imageI)
  then show ?thesis by simp
qed

lemma chars_a_to_z: "map char_of [of_char CHR ''a'' ..< Suc (of_char CHR ''z'') :: nat] = ''abcdefghijklmnopqrstuvwxyz''"
  by code_simp

lemma chars_A_to_Z: "map char_of [of_char CHR ''A'' ..< Suc (of_char CHR ''Z'') :: nat] = ''ABCDEFGHIJKLMNOPQRSTUVWXYZ''"
  by code_simp

lemma chars_0_to_9: "map char_of [of_char CHR ''0'' ..< Suc (of_char CHR ''9'') :: nat] = ''0123456789''"
  by code_simp

lemma slug_class_alphabet: "slug_class c \<longleftrightarrow> c \<in> set slug_alphabet"
proof
  assume "slug_class c"
  then consider "in_range CHR ''a'' CHR ''z'' c" | "in_range CHR ''A'' CHR ''Z'' c"
    | "in_range CHR ''0'' CHR ''9'' c" | "c = CHR ''_''" | "c = CHR ''-''"
    by (auto simp: slug_class_def)
  then show "c \<in> set slug_alphabet"
  proof cases
    case 1
    then have "c \<in> set ''abcdefghijklmnopqrstuvwxyz''"
      using in_range_image [of "CHR ''a''" "CHR ''z''" c] by (simp only: chars_a_to_z)
    then show ?thesis by (auto simp: slug_alphabet_def)
  next
    case 2
    then have "c \<in> set ''ABCDEFGHIJKLMNOPQRSTUVWXYZ''"
      using in_range_image [of "CHR ''A''" "CHR ''Z''" c] by (simp only: chars_A_to_Z)
    then show ?thesis by (auto simp: slug_alphabet_def)
  next
    case 3
    then have "c \<in> set ''0123456789''"
      using in_range_image [of "CHR ''0''" "CHR ''9''" c] by (simp only: chars_0_to_9)
    then show ?thesis by (auto simp: slug_alphabet_def)
  next
    case 4
    then show ?thesis by (simp add: slug_alphabet_def)
  next
    case 5
    then show ?thesis by (simp add: slug_alphabet_def)
  qed
next
  have "list_all slug_class slug_alphabet"
    by (simp add: slug_alphabet_def slug_class_def in_range_def)
  then show "c \<in> set slug_alphabet \<Longrightarrow> slug_class c"
    by (simp add: list_all_iff)
qed

lemma falsy_iff: "falsy v \<longleftrightarrow> v = None \<or> v = Some []"
  by (simp add: falsy_def split: option.splits)

lemma store_ok_code: "store_ok ls \<Longrightarrow> code_exists c ls \<Longrightarrow> isValidSlug c"
  by (auto simp: store_ok_def code_exists_iff list_all_iff)

lemma validateToken_admin_state: "validateToken admin_state admin_header"
  by (simp add: validateToken_iff admin_state_def admin_header_def)

lemma store_ok_one_link: "store_ok one_link_store"
  by (simp add: store_ok_def one_link_store_def isValidSlug_iff slug_class_def in_range_def)




lemma bit_length_le: "n < 2 ^ k \<Longrightarrow> bit_length n \<le> k"
proof (induction n arbitrary: k rule: bit_length.induct)
  case (1 n)
  show ?case
  proof (cases "n \<le> 0")
    case True
    then show ?thesis by (simp add: bit_length.simps [of n])
  next
    case False
    then obtain j where k: "k = Suc j"
      using "1.prems" by (cases k) auto
    have "n < 2 * 2 ^ j"
      using "1.prems" k by simp
    then have "n div 2 < 2 ^ j"
      by linarith
    then have "bit_length (n div 2) \<le> j"
      using "1.IH" False by simp
    then show ?thesis
      using False k by (simp add: bit_length.simps [of n])
  qed
qed

lemma round_double_exact:
  assumes "\<bar>n\<bar> < 2 ^ 53"
  shows "round_double n = n"
proof -
  have "bit_length \<bar>n\<bar> \<le> 53"
    using assms by (rule bit_length_le)
  then show ?thesis
    by (simp add: round_double_def Let_def)
qed

lemma page_offset_exact:
  assumes "1 \<le> p" and "1 \<le> n" and "(p - 1) * n < 2 ^ 53"
  shows "page_offset p n = (p - 1) * n"
proof -
  have nonneg: "0 \<le> p - 1" "0 \<le> (p - 1) * n"
    using assms(1,2) by simp_all
  have "(p - 1) * 1 \<le> (p - 1) * n"
    using assms(2) nonneg(1) by (rule mult_left_mono)
  then have "p - 1 < 2 ^ 53"
    using assms(3) by simp
  then have "js_sub p 1 = p - 1"
    using nonneg(1) by (simp add: js_sub_def round_double_exact)
  then show ?thesis
    using nonneg(2) assms(3) by (simp add: page_offset_def js_mul_def round_double_exact)
qed











lemma created_at_select_columns [simp]: "created_at (select_columns l) = created_at l"
  by (simp add: select_columns_def)



lemma post_shorten_links:
  "links (snd (post_shorten cfg rnd now body st)) = links st \<or>
   (\<exists>c u. isValidSlug c \<and>
      db_insert c u now (links st) = Some (links (snd (post_shorten cfg rnd now body st))))"
proof (cases "unique_code_loop rnd (links st) 0 0")
  case (Pair code n)
  have "isValidSlug code"
    using unique_code_loop_result [OF Pair] by simp
  then show ?thesis
    using Pair
    by (auto simp: post_shorten_def split: option.splits shorten_request.splits)
qed

lemma post_admin_create_links:
  "links (snd (post_admin_create cfg now authHeader body st)) = links st \<or>
   (\<exists>c u. isValidSlug c \<and>
      db_insert c u now (links st) = Some (links (snd (post_admin_create cfg now authHeader body st))))"
  by (auto simp: post_admin_create_def split: option.splits custom_slug_request.splits)

lemma post_admin_auth_links [simp]:
  "links (snd (post_admin_auth cfg rnd body st)) = links st"
  by (auto simp: post_admin_auth_def Let_def split: option.splits auth_request.splits)

lemma get_admin_links_state [simp]:
  "snd (get_admin_links cfg authHeader page_q limit_q search_q st) = st"
  by (auto simp: get_admin_links_def split: option.splits)

lemma get_stats_state [simp]: "snd (get_stats code st) = st"
  by (auto simp: get_stats_def split: option.splits)

lemma handle_routed:
  "route_segment c = CodeRoute \<Longrightarrow> handle cfg (GetCode c) amb st = get_code cfg c st"
  by simp

lemma route_segment_CodeRoute: "route_segment c = CodeRoute \<longleftrightarrow> c \<noteq> [] \<and> c \<noteq> ''admin''"
  by (simp add: route_segment_def)

lemma handle_non_redirect:
  assumes "\<not> is_redirect r"
  shows "links (snd (handle cfg r amb st)) = links st \<or>
    (\<exists>c u t. isValidSlug c \<and> db_insert c u t (links st) = Some (links (snd (handle cfg r amb st))))"
proof (cases r)
  case (PostShorten body)
  then show ?thesis
    using post_shorten_links [of cfg "amb_rnd amb" "amb_now amb" body st] by auto
next
  case (PostAdminCreate authHeader body)
  then show ?thesis
    using post_admin_create_links [of cfg "amb_now amb" authHeader body st] by auto
next
  case (GetCode code)
  then show ?thesis using assms by simp
qed (simp_all add: get_root_def get_admin_def)

lemma get_code_links:
  "links (snd (get_code cfg c st)) = links st \<or>
   links (snd (get_code cfg c st)) = increment_clicks c (links st)"
  by (auto simp: get_code_def split: option.splits)

lemma handle_GetCode_links:
  "links (snd (handle cfg (GetCode c) amb st)) = links st \<or>
   links (snd (handle cfg (GetCode c) amb st)) = increment_clicks c (links st)"
  using get_code_links [of cfg c st]
  by (cases "route_segment c") (simp_all add: get_root_def get_admin_def)

lemma store_ok_handle:
  assumes "store_ok (links st)"
  shows "store_ok (links (snd (handle cfg r amb st)))"
proof (cases "is_redirect r")
  case True
  then obtain c where "r = GetCode c"
    by (cases r) auto
  then show ?thesis
    using handle_GetCode_links [of cfg c amb st] assms store_ok_increment [of "links st" c]
    by auto
next
  case False
  then show ?thesis
    using handle_non_redirect [OF False, of cfg amb st] assms store_ok_insert by auto
qed

lemma run_Cons:
  "run cfg ((r, amb) # evs) st =
     (fst (handle cfg r amb st) # fst (run cfg evs (snd (handle cfg r amb st))),
      snd (run cfg evs (snd (handle cfg r amb st))))"
  by (simp split: prod.splits)

lemma store_ok_run: "store_ok (links st) \<Longrightarrow> store_ok (links (snd (run cfg evs st)))"
proof (induction evs arbitrary: st)
  case Nil
  then show ?case by simp
next
  case (Cons e evs)
  obtain r amb where e: "e = (r, amb)" by (cases e)
  have "store_ok (links (snd (handle cfg r amb st)))"
    using Cons.prems by (rule store_ok_handle)
  then have "store_ok (links (snd (run cfg evs (snd (handle cfg r amb st)))))"
    by (rule Cons.IH)
  then show ?case
    by (simp only: e run_Cons snd_conv)
qed

lemma handle_tokens:
  "validTokens (snd (handle cfg r amb st)) =
     validTokens st \<union> set (tokens_of (fst (handle cfg r amb st)))"
proof (cases r)
  case (PostShorten body)
  then show ?thesis
    by (auto simp: post_shorten_def split: option.splits shorten_request.splits prod.splits)
next
  case (PostAdminAuth body)
  then show ?thesis
    by (auto simp: post_admin_auth_def Let_def split: option.splits auth_request.splits)
next
  case (PostAdminCreate authHeader body)
  then show ?thesis
    by (auto simp: post_admin_create_def split: option.splits custom_slug_request.splits)
next
  case (GetCode code)
  then show ?thesis
    by (cases "route_segment code")
      (auto simp: get_code_def get_root_def get_admin_def redirect_def
         internal_server_error_def split: option.splits)
next
  case (GetStats code)
  then show ?thesis
    by (auto simp: get_stats_def not_found_def split: option.splits)
next
  case (GetAdminLinks authHeader page_q limit_q search_q)
  then show ?thesis
    by (auto simp: get_admin_links_def links_json_def Let_def internal_server_error_def
        split: option.splits)
qed (simp_all add: get_root_def get_admin_def)

lemma run_tokens:
  "validTokens (snd (run cfg evs st)) = validTokens st \<union> issued_tokens (fst (run cfg evs st))"
proof (induction evs arbitrary: st)
  case Nil
  then show ?case by (simp add: issued_tokens_def)
next
  case (Cons e evs)
  obtain r amb where e: "e = (r, amb)" by (cases e)
  show ?case
    using Cons.IH [of "snd (handle cfg r amb st)"] handle_tokens [of cfg r amb st]
    by (simp only: e run_Cons snd_conv fst_conv) (auto simp: issued_tokens_def)
qed

lemma row_kept_refl: "row_kept l l"
  by (simp add: row_kept_def)

lemma store_extends_refl: "store_extends ls ls"
  by (simp add: store_extends_def list_all2_same row_kept_refl)

lemma store_extends_insert: "db_insert c u t ls = Some ls' \<Longrightarrow> store_extends ls ls'"
  by (auto simp: db_insert_def store_extends_def list_all2_same row_kept_refl split: if_splits)

lemma store_extends_increment: "store_extends ls (increment_clicks c ls)"
  by (simp add: store_extends_def increment_clicks_def list_all2_map2 list_all2_same
      row_kept_def sql_add_one_def)

lemma distinct_insert:
  "distinct (map short_code ls) \<Longrightarrow> db_insert c u t ls = Some ls' \<Longrightarrow> distinct (map short_code ls')"
  by (auto simp: db_insert_def code_exists_iff split: if_splits)

lemma take_insert: "db_insert c u t ls = Some ls' \<Longrightarrow> take (length ls) ls' = ls"
  by (auto simp: db_insert_def split: if_splits)

lemma find_link_insert:
  "find_link c ls = Some l \<Longrightarrow> db_insert c' u t ls = Some ls' \<Longrightarrow> find_link c ls' = Some l"
  by (auto simp: db_insert_def find_link_append split: if_splits)

lemma find_link_fresh:
  "db_insert c u t ls = Some ls' \<Longrightarrow>
     \<exists>l. find_link c ls' = Some l \<and> original_url l = u \<and> clicks l = 0"
proof -
  assume i: "db_insert c u t ls = Some ls'"
  let ?n = "\<lparr>link_id = Some (Suc (max_id ls)), short_code = c, original_url = u,
             created_at = t, clicks = 0\<rparr>"
  have none: "find_link c ls = None" and ls': "ls' = ls @ [?n]"
    using i by (auto simp: db_insert_def code_exists_def split: if_splits)
  have "find_link c [?n] = Some ?n"
    by (simp add: find_link_def)
  then have "find_link c ls' = Some ?n"
    by (simp add: ls' find_link_append none)
  then show ?thesis by simp
qed

lemma store_ok_found_nonempty:
  assumes "store_ok ls" and "find_link c ls = Some l"
  shows "c \<noteq> []"
proof -
  have "code_exists c ls"
    using assms(2) by (simp add: code_exists_def)
  then have "isValidSlug c"
    using assms(1) store_ok_code by blast
  then show ?thesis
    by (auto simp: isValidSlug_iff)
qed

lemma sql_add_one_below: "- (2 ^ 63) \<le> n \<Longrightarrow> n < 2 ^ 63 \<Longrightarrow> sql_add_one n = n + 1"
  by (simp add: sql_add_one_def)

lemma get_code_found:
  assumes "store_ok (links st)" and "find_link c (links st) = Some l"
  shows "get_code cfg c st =
           (redirect cfg (original_url l), st\<lparr>links := increment_clicks c (links st)\<rparr>)"
  using assms store_ok_found_nonempty [OF assms] by (simp add: get_code_def)

lemma handle_find_link:
  assumes "store_ok (links st)" and "find_link c (links st) = Some l" and "c \<noteq> ''admin''"
  shows "find_link c (links (snd (handle cfg r amb st)))
           = Some (if r = GetCode c then l\<lparr>clicks := sql_add_one (clicks l)\<rparr> else l)"
proof (cases "is_redirect r")
  case True
  then obtain c' where r: "r = GetCode c'"
    by (cases r) auto
  show ?thesis
  proof (cases "c' = c")
    case True
    have "route_segment c = CodeRoute"
      using store_ok_found_nonempty [OF assms(1,2)] assms(3)
      by (simp add: route_segment_CodeRoute)
    then have "handle cfg (GetCode c) amb st = get_code cfg c st"
      by (rule handle_routed)
    then have "links (snd (handle cfg (GetCode c) amb st)) = increment_clicks c (links st)"
      using get_code_found [OF assms(1,2), of cfg] by simp
    then show ?thesis
      using r True assms(2) by (simp add: find_link_increment_clicks)
  next
    case False
    have "find_link c (increment_clicks c' (links st)) = Some l"
      using False assms(2) by (simp add: find_link_increment_clicks)
    then have "find_link c (links (snd (handle cfg (GetCode c') amb st))) = Some l"
      using handle_GetCode_links [of cfg c' amb st] assms(2) by (elim disjE) simp_all
    then show ?thesis
      using r False by simp
  qed
next
  case False
  then have n: "r \<noteq> GetCode c"
    by auto
  have "find_link c (links (snd (handle cfg r amb st))) = Some l"
    using handle_non_redirect [OF False, of cfg amb st]
  proof (elim disjE exE conjE)
    assume "links (snd (handle cfg r amb st)) = links st"
    then show ?thesis using assms(2) by simp
  next
    fix c' u t
    assume "db_insert c' u t (links st) = Some (links (snd (handle cfg r amb st)))"
    then show ?thesis using assms(2) by (rule find_link_insert [rotated])
  qed
  then show ?thesis
    using n by simp
qed

lemma redirects_of_Cons:
  "redirects_of c ((r, amb) # evs) = (if r = GetCode c then 1 else 0) + redirects_of c evs"
  by (simp add: redirects_of_def)

lemma run_find_link:
  assumes "store_ok (links st)" and "find_link c (links st) = Some l" and "c \<noteq> ''admin''"
    and "0 \<le> clicks l" and "clicks l + int (redirects_of c evs) \<le> 2 ^ 63"
  shows "find_link c (links (snd (run cfg evs st)))
           = Some (l\<lparr>clicks := clicks l + int (redirects_of c evs)\<rparr>)"
  using assms(1,2,4,5)
proof (induction evs arbitrary: st l)
  case Nil
  then show ?case by (simp add: redirects_of_def)
next
  case (Cons e evs)
  obtain r amb where e: "e = (r, amb)" by (cases e)
  let ?st = "snd (handle cfg r amb st)"
  let ?l = "if r = GetCode c then l\<lparr>clicks := clicks l + 1\<rparr> else l"
  have ok: "store_ok (links ?st)"
    using Cons.prems(1) by (rule store_ok_handle)
  have bound: "clicks l + int ((if r = GetCode c then 1 else 0) + redirects_of c evs) \<le> 2 ^ 63"
    using Cons.prems(4) by (simp only: e redirects_of_Cons)
  have step: "sql_add_one (clicks l) = clicks l + 1" if "r = GetCode c"
  proof -
    have "clicks l + int (1 + redirects_of c evs) \<le> 2 ^ 63"
      using bound that by simp
    then have "clicks l < 2 ^ 63"
      by linarith
    then show ?thesis
      using Cons.prems(3) by (simp add: sql_add_one_def)
  qed
  have f: "find_link c (links ?st) = Some ?l"
    using handle_find_link [OF Cons.prems(1,2) assms(3), of cfg r amb] step by auto
  have nonneg: "0 \<le> clicks ?l"
    using Cons.prems(3) by simp
  have bound': "clicks ?l + int (redirects_of c evs) \<le> 2 ^ 63"
    using bound by (cases "r = GetCode c") simp_all
  have "find_link c (links (snd (run cfg evs ?st)))
          = Some (?l\<lparr>clicks := clicks ?l + int (redirects_of c evs)\<rparr>)"
    using ok f nonneg bound' by (rule Cons.IH)
  then show ?case
    by (simp only: e run_Cons snd_conv redirects_of_Cons) (simp add: add.assoc)
qed

lemma run_redirect_responses:
  assumes "store_ok (links st)" and "find_link c (links st) = Some l" and "c \<noteq> ''admin''"
    and "i < length evs" and "fst (evs ! i) = GetCode c"
  shows "fst (run cfg evs st) ! i = redirect cfg (original_url l)"
  using assms(1,2,4,5)
proof (induction evs arbitrary: st l i)
  case Nil
  then show ?case by simp
next
  case (Cons e evs)
  obtain r amb where e: "e = (r, amb)" by (cases e)
  let ?st = "snd (handle cfg r amb st)"
  let ?l = "if r = GetCode c then l\<lparr>clicks := sql_add_one (clicks l)\<rparr> else l"
  have ok: "store_ok (links ?st)"
    using Cons.prems(1) by (rule store_ok_handle)
  have f: "find_link c (links ?st) = Some ?l"
    using Cons.prems(1,2) assms(3) by (rule handle_find_link)
  have routed: "handle cfg (GetCode c) amb st = get_code cfg c st"
    using store_ok_found_nonempty [OF Cons.prems(1,2)] assms(3)
    by (intro handle_routed) (simp add: route_segment_CodeRoute)
  show ?case
  proof (cases i)
    case 0
    then have "r = GetCode c"
      using Cons.prems(4) e by simp
    then show ?thesis
      using 0 e routed get_code_found [OF Cons.prems(1,2), of cfg] by (simp only: run_Cons) simp
  next
    case (Suc j)
    then have j: "j < length evs" "fst (evs ! j) = GetCode c"
      using Cons.prems(3,4) by simp_all
    have "fst (run cfg evs ?st) ! j = redirect cfg (original_url ?l)"
      using ok f j by (rule Cons.IH)
    then show ?thesis
      using Suc e by (simp only: run_Cons) simp
  qed
qed

lemma unique_code_loop_attempts:
  "a < maxAttempts \<Longrightarrow>
     (maxAttempts \<le> snd (unique_code_loop rnd ls pos a) \<longleftrightarrow>
        (\<forall>k < maxAttempts - 1 - a. code_exists (generateShortCode rnd (pos + 6 * k) 6) ls))"
proof (induction rnd ls pos a rule: unique_code_loop.induct)
  case (1 rnd ls pos attempts)
  let ?P = "\<lambda>k. code_exists (generateShortCode rnd (pos + 6 * k) 6) ls"
  show ?case
  proof (cases "code_exists (generateShortCode rnd pos 6) ls \<and> attempts + 1 < maxAttempts")
    case True
    then have step: "unique_code_loop rnd ls pos attempts
        = unique_code_loop rnd ls (pos + 6) (attempts + 1)"
      by (simp add: unique_code_loop.simps [of rnd ls pos attempts])
    have ih: "maxAttempts \<le> snd (unique_code_loop rnd ls (pos + 6) (attempts + 1)) \<longleftrightarrow>
        (\<forall>k < maxAttempts - 1 - (attempts + 1).
            code_exists (generateShortCode rnd (pos + 6 + 6 * k) 6) ls)"
      using "1.IH" True by simp
    have "(\<forall>k < maxAttempts - 1 - attempts. ?P k)
        \<longleftrightarrow> ?P 0 \<and> (\<forall>k < maxAttempts - 1 - (attempts + 1). ?P (Suc k))"
    proof -
      have "attempts + 1 < maxAttempts"
        using True by blast
      then have "maxAttempts - 1 - attempts = Suc (maxAttempts - 1 - (attempts + 1))"
        by arith
      then show ?thesis
        by (simp only: All_less_Suc2) 
    qed
    then show ?thesis
      using True ih by (simp add: step add.assoc)
  next
    case False
    then have stop: "unique_code_loop rnd ls pos attempts
        = (generateShortCode rnd pos 6, attempts + 1)"
      by (subst unique_code_loop.simps) (rule if_not_P)
    show ?thesis
    proof (cases "attempts + 1 < maxAttempts")
      case True
      then have "\<not> ?P 0"
        using False by simp
      moreover have "0 < maxAttempts - 1 - attempts"
        using True by simp
      ultimately have "\<not> (\<forall>k < maxAttempts - 1 - attempts. ?P k)"
        by blast
      then show ?thesis
        using True by (simp add: stop)
    next
      case False
      then show ?thesis
        by (simp add: stop)
    qed
  qed
qed

lemma post_shorten_500_iff:
  assumes "\<not> falsy url" and "isValidUrl cfg (the url)"
  shows "status (fst (post_shorten cfg rnd now (Some (ShortenRequest url)) st)) = 500 \<longleftrightarrow>
           (\<forall>k < 9. code_exists (generateShortCode rnd (6 * k) 6) (links st))"
proof (cases "unique_code_loop rnd (links st) 0 0")
  case (Pair code n)
  have a: "maxAttempts \<le> n \<longleftrightarrow>
      (\<forall>k < 9. code_exists (generateShortCode rnd (6 * k) 6) (links st))"
    using unique_code_loop_attempts [of 0 rnd "links st" 0] Pair
    by (simp add: maxAttempts_def)
  have "n < maxAttempts \<Longrightarrow> \<not> code_exists code (links st)"
    using unique_code_loop_result [OF Pair] by simp
  then show ?thesis
    using assms Pair a by (auto simp: post_shorten_def db_insert_def)
qed

lemma store_ok_reachable: "store_ok (links (snd (run cfg evs (boot []))))"
  by (rule store_ok_run) (simp add: boot_def store_ok_def)

text \<open>The listing of the earlier revision pages the rows the same way.\<close>

lemma admin_links_v0_pagination:
  assumes "parseInt (or_else page_q ''1'') = Some p" and "1 \<le> p"
    and "parseInt (or_else limit_q ''20'') = Some n" and "1 \<le> n"
    and "n < 2 ^ 53" and "(p - 1) * n < 2 ^ 53"
  shows "get_admin_links_v0 page_q limit_q st =
      (Json 200
         (LinksPageJson
            (take (nat n) (drop (nat ((p - 1) * n))
               (map select_columns (order_by_created_at_desc (links st)))))
            \<lparr>pg_page = p, pg_limit = n, pg_total = int (length (links st)),
             pg_totalPages = \<lceil>real (length (links st)) / real_of_int n\<rceil>\<rparr>),
       st)"
proof -
  have o: "page_offset p n = (p - 1) * n"
    using assms(2,4,6) by (rule page_offset_exact)
  have "0 \<le> (p - 1) * n"
    using assms(2,4) by simp
  then have "sql_integer n \<and> sql_integer (page_offset p n)"
    using assms(4,5,6) by (simp add: o sql_integer_def)
  then show ?thesis
    using assms(1-4) o
    by (simp add: get_admin_links_v0_def Let_def limit_offset_def take_map drop_map
        math_ceil_div_def)
qed

lemma store_ok_listing: "store_ok (links listing_state)"
  by (simp add: store_ok_def listing_state_def isValidSlug_iff slug_class_def in_range_def)


section \<open>The claims\<close>

subsection \<open>C1\<close>

text \<open>
  C1. The attempt loop of \<open>/shorten\<close> at a concrete input: the first nine candidates
  are the stored code \<open>aaaaaa\<close>, the tenth is \<open>bbbbbb\<close>, which is not stored. The
  handler counts the tenth attempt as exceeding the cap and answers 500 without inserting.
\<close>

theorem shorten_fails_on_unique_tenth_candidate:
  "generateShortCode tenth_differs 54 6 = ''bbbbbb''
   \<and> \<not> code_exists ''bbbbbb'' one_link_store
   \<and> isValidUrl demo_config ''https://example.org''
   \<and> post_shorten demo_config tenth_differs 0
        (Some (ShortenRequest (Some ''https://example.org''))) (boot one_link_store)
      = (Json 500 (ErrorResponse ''Failed to generate unique short code''), boot one_link_store)"
  by code_simp

subsection \<open>C2\<close>

text \<open>
  C2, at three stored links. An administrator logs in and creates the custom slug
  \<open>admin\<close>, which the slug validator accepts; \<open>GET /admin\<close> is then answered by the
  admin page, whose route is registered before \<open>/:code\<close>: no redirect, and the row's
  \<open>clicks\<close> stays 0. A link is created by \<open>/shorten\<close> for a URL with a line break
  inside; its redirect counts the click and then fails on the \<open>Location\<close> header: the
  answer is 500. And a row whose \<open>clicks\<close> has reached \<open>2^63\<close> keeps that value when
  it is redirected.
\<close>

theorem redirect_admin_slug_counterexample:
  "find_link ''admin'' (links (snd (run demo_config admin_slug_run (boot []))))
     = Some \<lparr>link_id = Some 1, short_code = ''admin'',
              original_url = ''https://example.org/panel'', created_at = 6, clicks = 0\<rparr>
   \<and> handle demo_config (GetCode ''admin'') \<lparr>amb_rnd = zero_rnd, amb_now = 7\<rparr>
         (snd (run demo_config admin_slug_run (boot [])))
       = (Html, snd (run demo_config admin_slug_run (boot [])))
   \<and> find_link ''aaaaaa'' (links (snd (run demo_config line_break_run (boot []))))
     = Some \<lparr>link_id = Some 1, short_code = ''aaaaaa'',
              original_url = line_break_url, created_at = 8, clicks = 0\<rparr>
   \<and> fst (handle demo_config (GetCode ''aaaaaa'') \<lparr>amb_rnd = zero_rnd, amb_now = 9\<rparr>
         (snd (run demo_config line_break_run (boot []))))
       = Text ''Internal Server Error'' 500
   \<and> map clicks (links (snd (handle demo_config (GetCode ''aaaaaa'')
         \<lparr>amb_rnd = zero_rnd, amb_now = 9\<rparr> (snd (run demo_config line_break_run (boot []))))))
       = [1]
   \<and> map clicks (links (snd (handle demo_config (GetCode ''aaaaaa'')
         \<lparr>amb_rnd = zero_rnd, amb_now = 9\<rparr> full_counter_state)))
       = [2 ^ 63]"
proof -
  have a: "find_link ''admin'' (links (snd (run demo_config admin_slug_run (boot []))))
     = Some \<lparr>link_id = Some 1, short_code = ''admin'',
              original_url = ''https://example.org/panel'', created_at = 6, clicks = 0\<rparr>"
    by code_simp
  have b: "handle demo_config (GetCode ''admin'') \<lparr>amb_rnd = zero_rnd, amb_now = 7\<rparr>
         (snd (run demo_config admin_slug_run (boot [])))
       = (Html, snd (run demo_config admin_slug_run (boot [])))"
    by (simp add: route_segment_def get_admin_def)
  have c: "find_link ''aaaaaa'' (links (snd (run demo_config line_break_run (boot []))))
     = Some \<lparr>link_id = Some 1, short_code = ''aaaaaa'',
              original_url = line_break_url, created_at = 8, clicks = 0\<rparr>"
    by code_simp
  have d: "fst (handle demo_config (GetCode ''aaaaaa'') \<lparr>amb_rnd = zero_rnd, amb_now = 9\<rparr>
         (snd (run demo_config line_break_run (boot []))))
       = Text ''Internal Server Error'' 500"
    by code_simp
  have e: "map clicks (links (snd (handle demo_config (GetCode ''aaaaaa'')
         \<lparr>amb_rnd = zero_rnd, amb_now = 9\<rparr> (snd (run demo_config line_break_run (boot []))))))
       = [1]"
    by code_simp
  have f: "map clicks (links (snd (handle demo_config (GetCode ''aaaaaa'')
         \<lparr>amb_rnd = zero_rnd, amb_now = 9\<rparr> full_counter_state)))
       = [2 ^ 63]"
    by code_simp
  show ?thesis
    using a b c d e f by (intro conjI)
qed

text \<open>
  C2, amended. In a store the service has written, for a stored code \<open>c\<close> other than
  \<open>admin\<close> with row \<open>l\<close>, whose URL the platform sends unchanged as the \<open>Location\<close>
  header, and while \<open>clicks\<close> stays within the 64-bit integers: \<open>GET /c\<close> answers with
  a 302 redirect to the row's URL and adds exactly 1 to its \<open>clicks\<close>; after any run
  of requests the row's \<open>clicks\<close> has grown by the number of redirects of \<open>c\<close> in the
  run, each of which was answered with that 302; and a row is created with
  \<open>clicks = 0\<close>, so after \<open>N\<close> redirects a fresh link holds \<open>N\<close>.
\<close>

theorem redirect_counts_clicks:
  assumes "store_ok (links st)" and "find_link c (links st) = Some l"
    and "c \<noteq> ''admin''"
    and "location_value cfg (original_url l) = Some (original_url l)"
    and "0 \<le> clicks l" and "clicks l + int (redirects_of c evs) \<le> 2 ^ 63"
  shows "fst (handle cfg (GetCode c) amb st) = Redirect (original_url l) 302
     \<and> snd (handle cfg (GetCode c) amb st) = st\<lparr>links := increment_clicks c (links st)\<rparr>
     \<and> (clicks l < 2 ^ 63 \<longrightarrow>
          find_link c (links (snd (handle cfg (GetCode c) amb st)))
            = Some (l\<lparr>clicks := clicks l + 1\<rparr>))
     \<and> find_link c (links (snd (run cfg evs st)))
          = Some (l\<lparr>clicks := clicks l + int (redirects_of c evs)\<rparr>)
     \<and> (\<forall>i < length evs. fst (evs ! i) = GetCode c \<longrightarrow>
           fst (run cfg evs st) ! i = Redirect (original_url l) 302)
     \<and> (\<forall>u t ls'. db_insert c' u t (links st) = Some ls' \<longrightarrow>
           (\<exists>n. find_link c' ls' = Some n \<and> original_url n = u \<and> clicks n = 0))"
proof -
  have r: "redirect cfg (original_url l) = Redirect (original_url l) 302"
    using assms(4) by (simp add: redirect_def)
  have routed: "handle cfg (GetCode c) amb st = get_code cfg c st"
    using store_ok_found_nonempty [OF assms(1,2)] assms(3)
    by (intro handle_routed) (simp add: route_segment_CodeRoute)
  have h: "handle cfg (GetCode c) amb st
      = (Redirect (original_url l) 302, st\<lparr>links := increment_clicks c (links st)\<rparr>)"
    using routed get_code_found [OF assms(1,2), of cfg] r by simp
  have b: "clicks l < 2 ^ 63 \<longrightarrow>
      find_link c (links (snd (handle cfg (GetCode c) amb st)))
        = Some (l\<lparr>clicks := clicks l + 1\<rparr>)"
    using assms(2,5) by (simp only: h) (simp add: find_link_increment_clicks sql_add_one_below)
  have c: "find_link c (links (snd (run cfg evs st)))
          = Some (l\<lparr>clicks := clicks l + int (redirects_of c evs)\<rparr>)"
    using assms(1,2,3,5,6) by (rule run_find_link)
  have d: "\<forall>i < length evs. fst (evs ! i) = GetCode c \<longrightarrow>
           fst (run cfg evs st) ! i = Redirect (original_url l) 302"
    using run_redirect_responses [OF assms(1,2,3), of _ evs cfg] r by simp
  have e: "\<forall>u t ls'. db_insert c' u t (links st) = Some ls' \<longrightarrow>
           (\<exists>n. find_link c' ls' = Some n \<and> original_url n = u \<and> clicks n = 0)"
    using find_link_fresh by blast
  show ?thesis
    using b c d e unfolding h by simp
qed

theorem redirect_counts_clicks_witness:
  "handle demo_config (GetCode ''promo'') \<lparr>amb_rnd = zero_rnd, amb_now = 40\<rparr> listing_state
     = (Redirect ''https://example.org/sale'' 302,
        listing_state\<lparr>links := increment_clicks ''promo'' (links listing_state)\<rparr>)
   \<and> find_link ''promo'' (links (snd (run demo_config three_redirects listing_state)))
       = Some (promo_link\<lparr>clicks := 3\<rparr>)
   \<and> fst (run demo_config three_redirects listing_state) ! 4 = Redirect ''https://example.org/sale'' 302"
proof -
  have f: "find_link ''promo'' (links listing_state) = Some promo_link"
    by (simp add: find_link_def listing_state_def promo_link_def)
  have n: "redirects_of ''promo'' three_redirects = 3"
    by (simp add: redirects_of_def three_redirects_def)
  have i: "4 < length three_redirects \<and> fst (three_redirects ! 4) = GetCode ''promo''"
    by (simp add: three_redirects_def)
  have u: "original_url promo_link = ''https://example.org/sale'' \<and> clicks promo_link = 0"
    by (simp add: promo_link_def)
  have v: "location_value demo_config (original_url promo_link) = Some (original_url promo_link)"
    by code_simp
  have a: "''promo'' \<noteq> ''admin''"
    by simp
  have k: "0 \<le> clicks promo_link"
    by (simp add: promo_link_def)
  have m: "clicks promo_link + int (redirects_of ''promo'' three_redirects) \<le> 2 ^ 63"
    by (simp add: n promo_link_def)
  show ?thesis
    using redirect_counts_clicks [OF store_ok_listing f a v k m,
        of "\<lparr>amb_rnd = zero_rnd, amb_now = 40\<rparr>" "''zzz''"] n i u
    by (simp add: prod_eq_iff)
qed

subsection \<open>C3\<close>



subsection \<open>C4\<close>

text \<open>
  C4. Every operation keeps the invariant of the link store. From a store whose codes
  are pairwise different, after any request: the codes are pairwise different; every
  row that was there is still there, at its place, with the same id, code, URL and
  creation time, and with \<open>clicks\<close> not lower (and at most one higher); and unless the
  request is a redirect, the old rows are exactly as they were, \<open>clicks\<close> included.
\<close>

theorem handle_preserves_link_store:
  assumes "distinct (map short_code (links st))"
  shows "distinct (map short_code (links (snd (handle cfg r amb st))))
     \<and> store_extends (links st) (links (snd (handle cfg r amb st)))
     \<and> (\<not> is_redirect r \<longrightarrow>
          take (length (links st)) (links (snd (handle cfg r amb st))) = links st)"
proof (cases "is_redirect r")
  case True
  then obtain c where "r = GetCode c"
    by (cases r) auto
  then show ?thesis
    using handle_GetCode_links [of cfg c amb st] assms
      store_extends_increment [of "links st" c] store_extends_refl [of "links st"] True
    by auto
next
  case False
  show ?thesis
    using handle_non_redirect [OF False, of cfg amb st] assms False
      store_extends_refl [of "links st"] distinct_insert store_extends_insert take_insert
    by auto
qed

theorem handle_preserves_link_store_witness:
  "distinct (map short_code (links (snd (handle demo_config (GetCode ''promo'') \<lparr>amb_rnd = zero_rnd, amb_now = 40\<rparr> listing_state))))
   \<and> store_extends (links listing_state)
        (links (snd (handle demo_config (GetCode ''promo'') \<lparr>amb_rnd = zero_rnd, amb_now = 40\<rparr> listing_state)))
   \<and> take (length (links listing_state))
        (links (snd (handle demo_config
           (PostAdminCreate admin_header (Some (CustomSlugRequest (Some ''https://example.org/new'') (Some ''new-slug''))))
           \<lparr>amb_rnd = zero_rnd, amb_now = 40\<rparr> listing_state)))
      = links listing_state
   \<and> length (links (snd (handle demo_config
           (PostAdminCreate admin_header (Some (CustomSlugRequest (Some ''https://example.org/new'') (Some ''new-slug''))))
           \<lparr>amb_rnd = zero_rnd, amb_now = 40\<rparr> listing_state))) = 4"
proof -
  have d: "distinct (map short_code (links listing_state))"
    by (simp add: listing_state_def)
  have n: "length (links (snd (handle demo_config
           (PostAdminCreate admin_header (Some (CustomSlugRequest (Some ''https://example.org/new'') (Some ''new-slug''))))
           \<lparr>amb_rnd = zero_rnd, amb_now = 40\<rparr> listing_state))) = 4"
    by code_simp
  show ?thesis
    using handle_preserves_link_store [OF d, of demo_config "GetCode ''promo''" "\<lparr>amb_rnd = zero_rnd, amb_now = 40\<rparr>"]
      handle_preserves_link_store [OF d, of demo_config
        "PostAdminCreate admin_header (Some (CustomSlugRequest (Some ''https://example.org/new'') (Some ''new-slug'')))"
        "\<lparr>amb_rnd = zero_rnd, amb_now = 40\<rparr>"] n
    by simp
qed

subsection \<open>C5\<close>

text \<open>
  C5, at two concrete requests: an authenticated \<open>/admin/create\<close> whose slug is
  stored, with the URL missing and with a URL that does not parse. Both get 400, not 409.
\<close>

theorem admin_create_taken_slug_bad_url_counterexample:
  "validateToken admin_state admin_header
   \<and> code_exists ''aaaaaa'' (links admin_state)
   \<and> post_admin_create demo_config 0 admin_header
        (Some (CustomSlugRequest None (Some ''aaaaaa''))) admin_state
      = (Json 400 (ErrorResponse ''URL is required''), admin_state)
   \<and> post_admin_create demo_config 0 admin_header
        (Some (CustomSlugRequest (Some ''not a url'') (Some ''aaaaaa''))) admin_state
      = (Json 400 (ErrorResponse ''Invalid URL format''), admin_state)"
  using validateToken_admin_state
  by (simp add: post_admin_create_def falsy_def isValidUrl_def demo_config_def startsWith_def
      code_exists_def find_link_def admin_state_def one_link_store_def)

text \<open>
  C5, amended. An authenticated \<open>/admin/create\<close> whose slug is a stored code never
  changes the state; when its URL is present and valid the response is 409, and when the
  URL is missing or does not parse it is 400.
\<close>

theorem admin_create_taken_slug:
  assumes "store_ok (links st)" and "validateToken st authHeader"
    and "code_exists s (links st)"
  shows "snd (post_admin_create cfg now authHeader (Some (CustomSlugRequest url (Some s))) st) = st
     \<and> (\<not> falsy url \<and> isValidUrl cfg (the url) \<longrightarrow>
          post_admin_create cfg now authHeader (Some (CustomSlugRequest url (Some s))) st
            = (Json 409 (ErrorResponse ''This slug is already taken''), st))
     \<and> (falsy url \<or> \<not> isValidUrl cfg (the url) \<longrightarrow>
          status (fst (post_admin_create cfg now authHeader
                         (Some (CustomSlugRequest url (Some s))) st)) = 400)"
proof -
  have v: "isValidSlug s"
    using assms(1,3) by (rule store_ok_code)
  then have "s \<noteq> []"
    by (simp add: isValidSlug_iff)
  then show ?thesis
    using assms(2,3) v by (auto simp: post_admin_create_def falsy_iff)
qed

theorem admin_create_taken_slug_witness:
  "post_admin_create demo_config 7 admin_header
      (Some (CustomSlugRequest (Some ''https://example.org'') (Some ''aaaaaa''))) admin_state
     = (Json 409 (ErrorResponse ''This slug is already taken''), admin_state)"
proof -
  have s: "store_ok (links admin_state)"
    using store_ok_one_link by (simp add: admin_state_def)
  have c: "code_exists ''aaaaaa'' (links admin_state)"
    by (simp add: code_exists_def find_link_def admin_state_def one_link_store_def)
  have u: "\<not> falsy (Some ''https://example.org'') \<and> isValidUrl demo_config (the (Some ''https://example.org''))"
    by (simp add: falsy_def isValidUrl_def demo_config_def startsWith_def)
  show ?thesis
    using admin_create_taken_slug [OF s validateToken_admin_state c, of demo_config 7 "Some ''https://example.org''"] u
    by simp
qed

subsection \<open>C6\<close>

text \<open>
  C6. After any run of the process from its start (no token in memory), the two admin
  endpoints answer 401 exactly when the Authorization header is not \<open>Bearer \<close> followed
  by a token that a response of the run has issued.
\<close>

theorem admin_endpoints_accept_issued_tokens_only:
  "(status (fst (post_admin_create cfg now authHeader body (snd (run cfg evs (boot db))))) = 401
      \<longleftrightarrow> \<not> (\<exists>t \<in> issued_tokens (fst (run cfg evs (boot db))). authHeader = Some (''Bearer '' @ t)))
   \<and> (status (fst (get_admin_links cfg authHeader page_q limit_q search_q (snd (run cfg evs (boot db))))) = 401
      \<longleftrightarrow> \<not> (\<exists>t \<in> issued_tokens (fst (run cfg evs (boot db))). authHeader = Some (''Bearer '' @ t)))"
proof -
  let ?st = "snd (run cfg evs (boot db))"
  have tok: "validTokens ?st = issued_tokens (fst (run cfg evs (boot db)))"
    using run_tokens [of cfg evs "boot db"] by (simp add: boot_def)
  have v: "validateToken ?st authHeader
      \<longleftrightarrow> (\<exists>t \<in> issued_tokens (fst (run cfg evs (boot db))). authHeader = Some (''Bearer '' @ t))"
    by (simp add: validateToken_iff tok)
  have a: "status (fst (post_admin_create cfg now authHeader body ?st)) = 401
      \<longleftrightarrow> \<not> validateToken ?st authHeader"
    by (auto simp: post_admin_create_def split: option.splits custom_slug_request.splits)
  have b: "status (fst (get_admin_links cfg authHeader page_q limit_q search_q ?st)) = 401
      \<longleftrightarrow> \<not> validateToken ?st authHeader"
    by (auto simp: get_admin_links_def internal_server_error_def split: option.splits)
  show ?thesis
    using a b v by simp
qed

theorem admin_endpoints_accept_issued_tokens_only_witness:
  "issued_tokens (fst (run demo_config login_run (boot one_link_store)))
     = {''aaaaaaaaaaaaaaaaaaaaaaaaaaaaaaaa''}
   \<and> status (fst (get_admin_links demo_config (Some ''Bearer aaaaaaaaaaaaaaaaaaaaaaaaaaaaaaaa'')
         None None None (snd (run demo_config login_run (boot one_link_store))))) \<noteq> 401
   \<and> status (fst (get_admin_links demo_config (Some ''Bearer k3J9xQ2mZ7aB4cD8eF1gH5iL0nP6rS2t'')
         None None None (snd (run demo_config login_run (boot one_link_store))))) = 401
   \<and> status (fst (post_admin_create demo_config 9 (Some ''Bearer aaaaaaaaaaaaaaaaaaaaaaaaaaaaaaaa'')
         None (snd (run demo_config login_run (boot one_link_store))))) \<noteq> 401"
proof -
  have i: "issued_tokens (fst (run demo_config login_run (boot one_link_store)))
     = {''aaaaaaaaaaaaaaaaaaaaaaaaaaaaaaaa''}"
    by code_simp
  show ?thesis
    using i
      admin_endpoints_accept_issued_tokens_only
        [of demo_config 9 "Some ''Bearer aaaaaaaaaaaaaaaaaaaaaaaaaaaaaaaa''" None login_run one_link_store None None None]
      admin_endpoints_accept_issued_tokens_only
        [of demo_config 9 "Some ''Bearer k3J9xQ2mZ7aB4cD8eF1gH5iL0nP6rS2t''" None login_run one_link_store None None None]
    by simp
qed

subsection \<open>C7\<close>




subsection \<open>C8\<close>

text \<open>
  C8. The slug validator accepts exactly the non-empty strings of at most 50 characters
  over letters, digits, hyphen and underscore; and for a request with a valid token and
  a valid URL, \<open>/admin/create\<close> answers 400 exactly when the body has no slug that
  the validator accepts.
\<close>

theorem isValidSlug_spec:
  "(isValidSlug s \<longleftrightarrow> s \<noteq> [] \<and> length s \<le> 50 \<and> (\<forall>c \<in> set s. c \<in> set slug_alphabet))
   \<and> (validateToken st authHeader \<and> \<not> falsy url \<and> isValidUrl cfg (the url) \<longrightarrow>
        (status (fst (post_admin_create cfg now authHeader (Some (CustomSlugRequest url slug)) st)) = 400
           \<longleftrightarrow> \<not> (\<exists>t. slug = Some t \<and> isValidSlug t)))"
proof -
  have a: "isValidSlug s \<longleftrightarrow> s \<noteq> [] \<and> length s \<le> 50 \<and> (\<forall>c \<in> set s. c \<in> set slug_alphabet)"
    by (auto simp: isValidSlug_iff list_all_iff slug_class_alphabet)
  have e: "isValidSlug [] = False"
    by (simp add: isValidSlug_iff)
  have b: "status (fst (post_admin_create cfg now authHeader (Some (CustomSlugRequest url slug)) st)) = 400
           \<longleftrightarrow> \<not> (\<exists>t. slug = Some t \<and> isValidSlug t)"
    if "validateToken st authHeader" "\<not> falsy url" "isValidUrl cfg (the url)"
    using that by (cases slug) (auto simp: post_admin_create_def falsy_iff db_insert_def e)
  show ?thesis using a b by blast
qed

theorem isValidSlug_spec_witness:
  "isValidSlug ''my-slug_1'' \<and> \<not> isValidSlug ''my slug''
   \<and> status (fst (post_admin_create demo_config 0 admin_header
         (Some (CustomSlugRequest (Some ''https://example.org'') (Some ''my slug''))) admin_state)) = 400
   \<and> status (fst (post_admin_create demo_config 0 admin_header
         (Some (CustomSlugRequest (Some ''https://example.org'') (Some ''my-slug_1''))) admin_state)) \<noteq> 400"
proof -
  have v: "validateToken admin_state admin_header"
    by (rule validateToken_admin_state)
  have u: "\<not> falsy (Some ''https://example.org'') \<and> isValidUrl demo_config (the (Some ''https://example.org''))"
    by (simp add: falsy_def isValidUrl_def demo_config_def startsWith_def)
  have g: "isValidSlug ''my-slug_1''"
    using isValidSlug_spec [of "''my-slug_1''" admin_state admin_header "Some ''https://example.org''" demo_config 0 "Some ''my slug''"]
    by (simp add: slug_alphabet_def)
  have n: "\<not> isValidSlug ''my slug''"
    using isValidSlug_spec [of "''my slug''" admin_state admin_header "Some ''https://example.org''" demo_config 0 "Some ''my slug''"]
    by (simp add: slug_alphabet_def)
  show ?thesis
    using g n v u
      isValidSlug_spec [of "''my slug''" admin_state admin_header "Some ''https://example.org''" demo_config 0 "Some ''my slug''"]
      isValidSlug_spec [of "''my slug''" admin_state admin_header "Some ''https://example.org''" demo_config 0 "Some ''my-slug_1''"]
    by simp
qed

subsection \<open>C9\<close>




subsection \<open>C10\<close>

text \<open>
  C10. Token validation needs the exact prefix \<open>Bearer \<close>: an admin request whose
  Authorization header is absent or does not start with it gets 401 from both admin
  endpoints and changes nothing; in particular a header that is just a token the server
  has issued and stored is answered with 401.
\<close>

theorem admin_endpoints_require_bearer_prefix:
  "(authHeader = None \<or> (\<exists>h. authHeader = Some h \<and> \<not> startsWith h ''Bearer '')
      \<longrightarrow> post_admin_create cfg now authHeader body st = (Json 401 (ErrorResponse ''Unauthorized''), st)
        \<and> get_admin_links cfg authHeader page_q limit_q search_q st
            = (Json 401 (ErrorResponse ''Unauthorized''), st))
   \<and> (let st' = st\<lparr>validTokens := insert (generateToken rnd) (validTokens st)\<rparr>
      in generateToken rnd \<in> validTokens st'
         \<and> status (fst (post_admin_create cfg now (Some (generateToken rnd)) body st')) = 401
         \<and> status (fst (get_admin_links cfg (Some (generateToken rnd)) page_q limit_q search_q st')) = 401)"
proof -
  have bare: "\<not> validateToken s (Some (generateToken rnd))" for s
    using generateToken_no_prefix [of rnd] by (simp add: validateToken_def)
  show ?thesis
    using bare validateToken_no_prefix [of authHeader st]
    by (auto simp: post_admin_create_def get_admin_links_def Let_def)
qed

theorem admin_endpoints_require_bearer_prefix_witness:
  "post_admin_create demo_config 0 (Some ''sesame'') None \<lparr>links = [], validTokens = {''sesame''}\<rparr>
     = (Json 401 (ErrorResponse ''Unauthorized''), \<lparr>links = [], validTokens = {''sesame''}\<rparr>)
   \<and> get_admin_links demo_config (Some ''sesame'') None None None \<lparr>links = [], validTokens = {''sesame''}\<rparr>
     = (Json 401 (ErrorResponse ''Unauthorized''), \<lparr>links = [], validTokens = {''sesame''}\<rparr>)"
  using admin_endpoints_require_bearer_prefix
    [of "Some ''sesame''" demo_config 0 None "\<lparr>links = [], validTokens = {''sesame''}\<rparr>" None None None]
  by (simp add: startsWith_def)

end
